theory Spec2Isabelle
  imports Main "HOL-Library.Sublist" "HOL-Library.Multiset"
begin

section \<open>The retrieval pipeline of now-screening (apps/api/main.go)\<close>

text \<open>
  The API serves \<open>GET /movies?city=..&query=..\<close>. A request reads the PostgreSQL table
  \<open>movies\<close> for rows of the city younger than 24 hours, scrapes the listings page when
  it finds none, replaces the city's rows in one transaction, filters the entries with a
  fuzzy matcher when a query is given, and answers in JSON.

  Go strings are byte sequences, and so is \<^typ>\<open>string\<close> here: a non-breaking space is
  the two bytes \<open>0xC2 0xA0\<close> of its UTF-8 encoding.
\<close>

subsection \<open>Strings: the standard-library calls of \<open>cleanQuery\<close>\<close>

definition nbsp :: string where
  "nbsp = [CHR 0xC2, CHR 0xA0]"

text \<open>
  \<open>strings.ReplaceAll(s, old, new)\<close> for a non-empty \<open>old\<close>: the non-overlapping
  occurrences of \<open>old\<close> are replaced from left to right. The source calls it with
  one constant \<open>old\<close> only, the non-breaking space \<open>nbsp\<close>; for an empty \<open>old\<close>
  (where Go inserts \<open>new\<close> between runes) this definition leaves \<open>s\<close> as it is.
\<close>

function ReplaceAll :: "string \<Rightarrow> string \<Rightarrow> string \<Rightarrow> string" where
  "ReplaceAll [] old new = []"
| "ReplaceAll (c # s) old new =
     (if old \<noteq> [] \<and> prefix old (c # s)
      then new @ ReplaceAll (drop (length old) (c # s)) old new
      else c # ReplaceAll s old new)"
  by pat_completeness auto
termination
  by (relation "measure (\<lambda>(s, old, new). length s)") (auto simp: Suc_le_eq)

text \<open>
  The UTF-8 encodings of the code points for which Go's \<open>unicode.IsSpace\<close> holds:
  U+0009 to U+000D, U+0020, U+0085, U+00A0, U+1680, U+2000 to U+200A, U+2028, U+2029,
  U+202F, U+205F and U+3000.
\<close>

definition unicode_spaces :: "string list" where
  "unicode_spaces =
     [[CHR 0x09], [CHR 0x0A], [CHR 0x0B], [CHR 0x0C], [CHR 0x0D], [CHR 0x20],
      [CHR 0xC2, CHR 0x85], [CHR 0xC2, CHR 0xA0],
      [CHR 0xE1, CHR 0x9A, CHR 0x80],
      [CHR 0xE2, CHR 0x80, CHR 0x80], [CHR 0xE2, CHR 0x80, CHR 0x81],
      [CHR 0xE2, CHR 0x80, CHR 0x82], [CHR 0xE2, CHR 0x80, CHR 0x83],
      [CHR 0xE2, CHR 0x80, CHR 0x84], [CHR 0xE2, CHR 0x80, CHR 0x85],
      [CHR 0xE2, CHR 0x80, CHR 0x86], [CHR 0xE2, CHR 0x80, CHR 0x87],
      [CHR 0xE2, CHR 0x80, CHR 0x88], [CHR 0xE2, CHR 0x80, CHR 0x89],
      [CHR 0xE2, CHR 0x80, CHR 0x8A],
      [CHR 0xE2, CHR 0x80, CHR 0xA8], [CHR 0xE2, CHR 0x80, CHR 0xA9],
      [CHR 0xE2, CHR 0x80, CHR 0xAF],
      [CHR 0xE2, CHR 0x81, CHR 0x9F],
      [CHR 0xE3, CHR 0x80, CHR 0x80]]"

text \<open>
  Removing the leading runes that are one of \<open>ws\<close>. A valid UTF-8 encoding at the start
  (or, reversed, at the end) of a Go string decodes to its own rune, so trimming white
  space is removing these byte sequences.
\<close>

function strip_leading :: "string list \<Rightarrow> string \<Rightarrow> string" where
  "strip_leading ws s =
     (case List.find (\<lambda>w. w \<noteq> [] \<and> prefix w s) ws of
        None \<Rightarrow> s
      | Some w \<Rightarrow> strip_leading ws (drop (length w) s))"
  by pat_completeness auto
termination
proof (relation "measure (\<lambda>(ws, s). length s)")
  show "wf (measure (\<lambda>(ws, s). length s))" by simp
next
  fix ws :: "string list" and s w :: string
  assume "List.find (\<lambda>w. w \<noteq> [] \<and> prefix w s) ws = Some w"
  then have "w \<noteq> []" and "prefix w s"
    by (auto simp: find_Some_iff)
  then have "s \<noteq> []" by auto
  with \<open>w \<noteq> []\<close> show "((ws, drop (length w) s), (ws, s)) \<in> measure (\<lambda>(ws, s). length s)"
    by simp
qed

text \<open>\<open>strings.TrimSpace\<close>: leading and trailing white space, as Unicode defines it, removed.\<close>

definition TrimSpace :: "string \<Rightarrow> string" where
  "TrimSpace s =
     rev (strip_leading (map rev unicode_spaces) (rev (strip_leading unicode_spaces s)))"

text \<open>
  \<open>html.UnescapeString\<close> returns a string without \<open>&\<close> as it is (its first test); what
  it does to a string with entities in it depends on the entity table of the standard
  library and is the parameter \<open>decode\<close>.
\<close>

definition UnescapeString :: "(string \<Rightarrow> string) \<Rightarrow> string \<Rightarrow> string" where
  "UnescapeString decode s = (if CHR ''&'' \<in> set s then decode s else s)"

definition cleanQuery :: "(string \<Rightarrow> string) \<Rightarrow> string \<Rightarrow> string" where
  "cleanQuery decode query =
     (let htmlDecoded = UnescapeString decode query;
          cleaned = ReplaceAll htmlDecoded nbsp '' ''
      in TrimSpace cleaned)"

subsection \<open>Data: entries, the table \<open>movies\<close>, requests and responses\<close>

record Movie =
  Title :: string
  Href :: string

text \<open>
  A row of the table \<open>movies\<close> of \<open>init.sql\<close>: \<open>city\<close>, \<open>title\<close>, \<open>href\<close> and
  \<open>scraped_at\<close> (microseconds, the resolution of a PostgreSQL timestamp). The serial
  \<open>id\<close> is read by no statement and is left out. The table is the list of its rows in
  the order of their insertion.
\<close>

record row =
  city_col :: string
  title_col :: string
  href_col :: string
  scraped_at :: int

type_synonym table = "row list"

definition hours24 :: int where
  "hours24 = 24 * 60 * 60 * 1000000"

text \<open>
  An element of \<open>links\<close>, a Go \<open>map[string]string\<close>: reading a missing key gives the
  empty string.
\<close>

type_synonym link = "string \<rightharpoonup> string"

definition index_map :: "link \<Rightarrow> string \<Rightarrow> string" where
  "index_map l k = (case l k of None \<Rightarrow> [] | Some v \<Rightarrow> v)"

datatype db_error =
  QueryError | ScanError | RowsError | BeginError | ExecError | UniqueViolation | CommitError

text \<open>
  What the database server and the connection do to one call of \<open>getMoviesFromDB\<close>:
  nothing; \<open>db.Query\<close> returns an error; \<open>rows.Scan\<close> fails at the row of the given
  index; or the row stream breaks after the given number of rows, which \<open>rows.Err()\<close>
  reports once \<open>rows.Next()\<close> has returned false.
\<close>

datatype read_fault = NoReadFault | QueryFails | ScanFails nat | RowsErr nat

text \<open>
  And to one call of \<open>saveMoviesToDB\<close>: nothing; \<open>db.Begin\<close> fails; the \<open>DELETE\<close>
  fails; the \<open>INSERT\<close> of the entry of the given index is refused (a lost connection,
  a value longer than its column, a byte sequence that is no UTF-8); or \<open>tx.Commit\<close>
  fails. A row that breaks \<open>UNIQUE(city, href)\<close> is refused by the table itself.
\<close>

datatype save_fault = NoSaveFault | BeginFails | DeleteFails | InsertFails nat | CommitFails

text \<open>
  The world outside one request: the clock of the \<open>SELECT\<close> (\<open>NOW()\<close>), the faults of
  the read, what \<open>chromedp.Run\<close> ends with (an error, which a navigation failure and the
  expiry of the 60 second context both are, or the evaluated \<open>links\<close>), the clock of the
  saving transaction (\<open>CURRENT_TIMESTAMP\<close>, the default of \<open>scraped_at\<close>, is the start
  of the transaction, the same for all its rows) and the faults of the save.
\<close>

record env =
  now :: int
  read_fault :: read_fault
  chromedp_run :: "string + link list"
  save_time :: int
  save_fault :: save_fault

text \<open>
  The query string of the request: \<open>c.DefaultQuery("city", "cuttack")\<close> and
  \<open>c.Query("query")\<close> read it.
\<close>

record request =
  city_param :: "string option"
  query_param :: "string option"

definition DefaultQuery :: "string option \<Rightarrow> string \<Rightarrow> string" where
  "DefaultQuery p defaultValue = (case p of None \<Rightarrow> defaultValue | Some v \<Rightarrow> v)"

definition Query :: "string option \<Rightarrow> string" where
  "Query p = (case p of None \<Rightarrow> [] | Some v \<Rightarrow> v)"

text \<open>
  A response is \<open>c.JSON(status, body)\<close>, or the panic of an index out of range, which
  leaves the handler before it writes one.
\<close>

datatype body = ErrorBody string | MoviesBody string "Movie list" nat

datatype response = JSON nat body | Panic

text \<open>The calls a request makes to its collaborators, in their order.\<close>

datatype event =
  DbRead string
| Extract string
| Persist string "Movie list" "db_error option"

record outcome =
  response :: response
  db :: table
  trace :: "event list"

text \<open>An element of the \<open>Matches\<close> of the fuzzy library: the string, its index, its score.\<close>

record Match =
  Str :: string
  Index :: nat
  Score :: int

subsection \<open>The cache store\<close>

text \<open>
  The \<open>SELECT\<close> of \<open>getMoviesFromDB\<close>: the rows of the city with
  \<open>scraped_at > NOW() - INTERVAL '24 hours'\<close>, \<open>ORDER BY scraped_at DESC\<close>. Rows of
  equal \<open>scraped_at\<close> come in the order of the table.
\<close>

definition select_fresh :: "int \<Rightarrow> string \<Rightarrow> table \<Rightarrow> row list" where
  "select_fresh t city tbl =
     sort_key (\<lambda>r. - scraped_at r)
       (filter (\<lambda>r. city_col r = city \<and> scraped_at r > t - hours24) tbl)"

definition movie_of_row :: "row \<Rightarrow> Movie" where
  "movie_of_row r = \<lparr>Title = title_col r, Href = href_col r\<rparr>"

text \<open>
  \<open>getMoviesFromDB\<close> returns the pair \<open>(movies, err)\<close>. Both can be set: after a broken
  row stream the rows scanned so far come back with the error of \<open>rows.Err()\<close>.
\<close>

definition getMoviesFromDB ::
  "read_fault \<Rightarrow> int \<Rightarrow> string \<Rightarrow> table \<Rightarrow> Movie list \<times> db_error option" where
  "getMoviesFromDB f t city tbl =
     (case f of
        QueryFails \<Rightarrow> ([], Some QueryError)
      | NoReadFault \<Rightarrow> (map movie_of_row (select_fresh t city tbl), None)
      | ScanFails k \<Rightarrow>
          (if k < length (select_fresh t city tbl) then ([], Some ScanError)
           else (map movie_of_row (select_fresh t city tbl), None))
      | RowsErr k \<Rightarrow> (map movie_of_row (take k (select_fresh t city tbl)), Some RowsError))"

definition row_of_movie :: "string \<Rightarrow> int \<Rightarrow> Movie \<Rightarrow> row" where
  "row_of_movie city t m =
     \<lparr>city_col = city, title_col = Title m, href_col = Href m, scraped_at = t\<rparr>"

text \<open>
  The loop of \<open>INSERT\<close>s inside the transaction, on the transaction's view \<open>tx\<close> of the
  table: the entry of index \<open>i\<close> is next. The first statement that fails ends the loop
  with its error.
\<close>

fun insert_movies ::
  "save_fault \<Rightarrow> int \<Rightarrow> string \<Rightarrow> nat \<Rightarrow> Movie list \<Rightarrow> table \<Rightarrow> db_error + table" where
  "insert_movies f t city i [] tx = Inr tx"
| "insert_movies f t city i (movie # movies) tx =
     (if f = InsertFails i then Inl ExecError
      else if list_ex (\<lambda>r. city_col r = city \<and> href_col r = Href movie) tx
      then Inl UniqueViolation
      else insert_movies f t city (Suc i) movies (tx @ [row_of_movie city t movie]))"

text \<open>
  \<open>saveMoviesToDB\<close> returns the error (or none) and the table it leaves. The
  transaction works on its own view of the table; \<open>defer tx.Rollback\<close> drops that view
  on every return before a successful \<open>Commit\<close>, which alone makes it the table.
\<close>

definition saveMoviesToDB ::
  "save_fault \<Rightarrow> int \<Rightarrow> string \<Rightarrow> Movie list \<Rightarrow> table \<Rightarrow> db_error option \<times> table" where
  "saveMoviesToDB f t city movies tbl =
     (if f = BeginFails then (Some BeginError, tbl)
      else if f = DeleteFails then (Some ExecError, tbl)
      else
        (case insert_movies f t city 0 movies (filter (\<lambda>r. city_col r \<noteq> city) tbl) of
           Inl err \<Rightarrow> (Some err, tbl)
         | Inr tx \<Rightarrow> if f = CommitFails then (Some CommitError, tbl) else (None, tx)))"

subsection \<open>The extractor\<close>

text \<open>The loop of \<open>scrapeMovies\<close> over \<open>links\<close>: links without \<open>href\<close> are dropped.\<close>

fun movies_of_links :: "(string \<Rightarrow> string) \<Rightarrow> link list \<Rightarrow> Movie list" where
  "movies_of_links decode [] = []"
| "movies_of_links decode (l # links) =
     (if index_map l ''href'' \<noteq> []
      then \<lparr>Title = cleanQuery decode (index_map l ''text''), Href = index_map l ''href''\<rparr>
             # movies_of_links decode links
      else movies_of_links decode links)"

definition scrapeMovies :: "(string \<Rightarrow> string) \<Rightarrow> string + link list \<Rightarrow> string + Movie list" where
  "scrapeMovies decode run =
     (case run of Inl err \<Rightarrow> Inl err | Inr links \<Rightarrow> Inr (movies_of_links decode links))"

subsection \<open>The matcher and the handler\<close>

text \<open>
  The loop \<open>result = append(result, movies[match.Index])\<close>; an index out of range
  panics (\<open>None\<close>).
\<close>

fun collect :: "Movie list \<Rightarrow> Match list \<Rightarrow> Movie list option" where
  "collect movies [] = Some []"
| "collect movies (m # matches) =
     (if Index m < length movies
      then map_option ((#) (movies ! Index m)) (collect movies matches)
      else None)"

text \<open>
  \<open>fuzzySearchMovies\<close>; \<open>fuzzy.Find\<close>, of the library github.com/sahilm/fuzzy, is the
  parameter \<open>finder\<close>.
\<close>

definition fuzzySearchMovies ::
  "(string \<Rightarrow> string list \<Rightarrow> Match list) \<Rightarrow> Movie list \<Rightarrow> string \<Rightarrow> Movie list option" where
  "fuzzySearchMovies finder movies query =
     (if length movies = 0 then Some movies
      else
        (let titles = map Title movies;
             matches = finder query titles
         in collect movies matches))"

text \<open>Lines 226 to 228 of \<open>getMovies\<close>: the matcher, applied when the query is not empty.\<close>

definition apply_query ::
  "(string \<Rightarrow> string list \<Rightarrow> Match list) \<Rightarrow> (string \<Rightarrow> string) \<Rightarrow> Movie list \<Rightarrow> string
     \<Rightarrow> Movie list option" where
  "apply_query finder decode movies query =
     (if query \<noteq> [] then fuzzySearchMovies finder movies (cleanQuery decode query)
      else Some movies)"

text \<open>Lines 226 to 234: the end of \<open>getMovies\<close> on both of its paths.\<close>

definition reply ::
  "(string \<Rightarrow> string list \<Rightarrow> Match list) \<Rightarrow> (string \<Rightarrow> string) \<Rightarrow> string \<Rightarrow> string
     \<Rightarrow> Movie list \<Rightarrow> response" where
  "reply finder decode city query movies =
     (case apply_query finder decode movies query of
        None \<Rightarrow> Panic
      | Some ms \<Rightarrow> JSON 200 (MoviesBody city ms (length ms)))"

definition getMovies ::
  "(string \<Rightarrow> string list \<Rightarrow> Match list) \<Rightarrow> (string \<Rightarrow> string) \<Rightarrow> env \<Rightarrow> table \<Rightarrow> request
     \<Rightarrow> outcome" where
  "getMovies finder decode e tbl c =
     (let city = DefaultQuery (city_param c) ''cuttack'';
          query = Query (query_param c);
          movies = fst (getMoviesFromDB (read_fault e) (now e) city tbl);
          fromCache = (length movies > 0)
      in if \<not> fromCache then
           (case scrapeMovies decode (chromedp_run e) of
              Inl err \<Rightarrow>
                \<lparr>response = JSON 500 (ErrorBody (''Failed to scrape movies: '' @ err)),
                 db = tbl,
                 trace = [DbRead city, Extract city]\<rparr>
            | Inr scraped \<Rightarrow>
                (let saved = saveMoviesToDB (save_fault e) (save_time e) city scraped tbl
                 in \<lparr>response = reply finder decode city query scraped,
                     db = snd saved,
                     trace = [DbRead city, Extract city, Persist city scraped (fst saved)]\<rparr>))
         else
           \<lparr>response = reply finder decode city query movies,
            db = tbl,
            trace = [DbRead city]\<rparr>)"

abbreviation city_of :: "request \<Rightarrow> string" where
  "city_of c \<equiv> DefaultQuery (city_param c) ''cuttack''"

abbreviation query_of :: "request \<Rightarrow> string" where
  "query_of c \<equiv> Query (query_param c)"

subsection \<open>Freshness, in the words of the specification\<close>

text \<open>
  A snapshot is fresh iff \<open>now - capturedAt < window\<close>; the store holds a fresh snapshot
  of a city when it holds a fresh row of it.
\<close>

definition fresh :: "int \<Rightarrow> row \<Rightarrow> bool" where
  "fresh t r = (t - scraped_at r < hours24)"


subsection \<open>The fuzzy library, from its description\<close>

text \<open>
  Modelled from the spec: \<open>fuzzy.Find\<close> of github.com/sahilm/fuzzy, a dependency whose
  source is not in the repository. The specification says of it: the characters of the
  query must appear, in order, within the title; matching is case-insensitive; entries
  with no such match are excluded; the result is in descending score, ties in the order
  of the input (a stable sort). The score itself, which rewards contiguous and early
  matches, is the parameter \<open>score\<close>.

  The characters of a Go string are the code points that its bytes encode in UTF-8; a
  byte that starts no valid encoding is the character U+FFFD by itself.
\<close>

definition cont :: "char \<Rightarrow> bool" where
  "cont b = (128 \<le> (of_char b :: int) \<and> (of_char b :: int) < 192)"

definition low6 :: "char \<Rightarrow> int" where
  "low6 b = of_char b mod 64"

definition valid3 :: "int \<Rightarrow> bool" where
  "valid3 cp = (2048 \<le> cp \<and> (cp < 55296 \<or> 57344 \<le> cp))"

definition valid4 :: "int \<Rightarrow> bool" where
  "valid4 cp = (65536 \<le> cp \<and> cp < 1114112)"

fun runes :: "string \<Rightarrow> int list" where
  "runes [] = []"
| "runes (b # bs) =
     (let n = of_char b :: int in
      if n < 128 then n # runes bs
      else
        (case bs of
           [] \<Rightarrow> [65533]
         | b1 # bs1 \<Rightarrow>
             if 194 \<le> n \<and> n < 224 \<and> cont b1
             then ((n mod 32) * 64 + low6 b1) # runes bs1
             else
               (case bs1 of
                  [] \<Rightarrow> 65533 # runes bs
                | b2 # bs2 \<Rightarrow>
                    if 224 \<le> n \<and> n < 240 \<and> cont b1 \<and> cont b2
                       \<and> valid3 ((n mod 16) * 4096 + low6 b1 * 64 + low6 b2)
                    then ((n mod 16) * 4096 + low6 b1 * 64 + low6 b2) # runes bs2
                    else
                      (case bs2 of
                         [] \<Rightarrow> 65533 # runes bs
                       | b3 # bs3 \<Rightarrow>
                           if 240 \<le> n \<and> n < 245 \<and> cont b1 \<and> cont b2 \<and> cont b3
                              \<and> valid4 ((n mod 8) * 262144 + low6 b1 * 4096
                                          + low6 b2 * 64 + low6 b3)
                           then ((n mod 8) * 262144 + low6 b1 * 4096
                                   + low6 b2 * 64 + low6 b3) # runes bs3
                           else 65533 # runes bs))))"

text \<open>
  Two characters match without regard to case when they fold to the same character.
  The letters \<open>A\<close> to \<open>Z\<close> fold to \<open>a\<close> to \<open>z\<close> and the other ASCII characters
  to themselves; the ufold of the characters beyond ASCII, a table of Unicode, is the
  parameter \<open>ufold\<close>.
\<close>

definition fold_case :: "(int \<Rightarrow> int) \<Rightarrow> int \<Rightarrow> int" where
  "fold_case ufold c =
     (if 65 \<le> c \<and> c \<le> 90 then c + 32 else if c < 128 then c else ufold c)"

definition chars :: "(int \<Rightarrow> int) \<Rightarrow> string \<Rightarrow> int list" where
  "chars ufold s = map (fold_case ufold) (runes s)"

text \<open>The elements of \<open>ps\<close> appear, in this order, in \<open>cs\<close>.\<close>

fun in_order :: "'a list \<Rightarrow> 'a list \<Rightarrow> bool" where
  "in_order [] cs = True"
| "in_order (p # ps) [] = False"
| "in_order (p # ps) (c # cs) = (if p = c then in_order ps cs else in_order (p # ps) cs)"

definition hit :: "(int \<Rightarrow> int) \<Rightarrow> string \<Rightarrow> string \<Rightarrow> bool" where
  "hit ufold pattern s = in_order (chars ufold pattern) (chars ufold s)"

fun scan ::
  "(int \<Rightarrow> int) \<Rightarrow> (string \<Rightarrow> string \<Rightarrow> int) \<Rightarrow> string \<Rightarrow> nat \<Rightarrow> string list
     \<Rightarrow> Match list" where
  "scan ufold score pattern i [] = []"
| "scan ufold score pattern i (s # ss) =
     (if hit ufold pattern s
      then \<lparr>Str = s, Index = i, Score = score pattern s\<rparr> # scan ufold score pattern (Suc i) ss
      else scan ufold score pattern (Suc i) ss)"

definition Find ::
  "(int \<Rightarrow> int) \<Rightarrow> (string \<Rightarrow> string \<Rightarrow> int) \<Rightarrow> string \<Rightarrow> string list \<Rightarrow> Match list" where
  "Find ufold score pattern data = sort_key (\<lambda>m. - Score m) (scan ufold score pattern 0 data)"

subsection \<open>Concrete inputs\<close>

text \<open>
  A decoder that leaves every entity as it is, a matcher that finds the titles equal to
  the pattern, and a score that prefers short titles.
\<close>

definition keep_entities :: "string \<Rightarrow> string" where
  "keep_entities s = s"

fun exact_from :: "string \<Rightarrow> nat \<Rightarrow> string list \<Rightarrow> Match list" where
  "exact_from pattern i [] = []"
| "exact_from pattern i (s # ss) =
     (if s = pattern
      then \<lparr>Str = s, Index = i, Score = 0\<rparr> # exact_from pattern (Suc i) ss
      else exact_from pattern (Suc i) ss)"

definition find_exact :: "string \<Rightarrow> string list \<Rightarrow> Match list" where
  "find_exact pattern data = exact_from pattern 0 data"

definition length_score :: "string \<Rightarrow> string \<Rightarrow> int" where
  "length_score pattern s = int (length pattern) - int (length s)"

definition sinners :: Movie where
  "sinners = \<lparr>Title = ''Sinners'', Href = ''/movies/cuttack/sinners''\<rparr>"

definition ballerina :: Movie where
  "ballerina = \<lparr>Title = ''Ballerina'', Href = ''/movies/cuttack/ballerina''\<rparr>"

definition conjuring :: Movie where
  "conjuring = \<lparr>Title = ''The Conjuring'', Href = ''/movies/cuttack/the-conjuring''\<rparr>"

text \<open>The title \<open>How to Train Your Dragon\<close> written with non-breaking spaces.\<close>

definition dragon_title :: string where
  "dragon_title = ''How'' @ nbsp @ ''to'' @ nbsp @ ''Train'' @ nbsp @ ''Your'' @ nbsp @ ''Dragon''"

text \<open>The object \<open>{text: title, href: link.href}\<close> that the page script returns.\<close>

definition mk_link :: "string \<Rightarrow> string \<Rightarrow> link" where
  "mk_link t h = [''text'' \<mapsto> t, ''href'' \<mapsto> h]"

text \<open>A table written at time 0: two rows of cuttack, one of bhubaneswar.\<close>

definition cached_table :: table where
  "cached_table =
     [row_of_movie ''cuttack'' 0 sinners,
      row_of_movie ''cuttack'' 0 ballerina,
      row_of_movie ''bhubaneswar'' 0 conjuring]"

definition cuttack_request :: request where
  "cuttack_request = \<lparr>city_param = Some ''cuttack'', query_param = None\<rparr>"

definition ballerina_request :: request where
  "ballerina_request = \<lparr>city_param = Some ''cuttack'', query_param = Some ''Ballerina''\<rparr>"

text \<open>One hour after the table was written, all is well and the browser would time out.\<close>

definition warm_env :: env where
  "warm_env =
     \<lparr>now = 3600000000, read_fault = NoReadFault,
      chromedp_run = Inl ''context deadline exceeded'',
      save_time = 3601000000, save_fault = NoSaveFault\<rparr>"


text \<open>Twenty-five hours after the table was written, the browser times out.\<close>

definition timeout_env :: env where
  "timeout_env =
     \<lparr>now = 90000000000, read_fault = NoReadFault,
      chromedp_run = Inl ''context deadline exceeded'',
      save_time = 90001000000, save_fault = NoSaveFault\<rparr>"

text \<open>Twenty-five hours after, the page lists the same link twice.\<close>

definition twice_env :: env where
  "twice_env =
     \<lparr>now = 90000000000, read_fault = NoReadFault,
      chromedp_run = Inr [mk_link ''Sinners'' ''/movies/cuttack/sinners'',
                          mk_link ''Sinners'' ''/movies/cuttack/sinners''],
      save_time = 90001000000, save_fault = NoSaveFault\<rparr>"

text \<open>
  Twenty-five hours after, the page lists two films; the text of the second link has
  white space around it.
\<close>

definition listing_env :: env where
  "listing_env =
     \<lparr>now = 90000000000, read_fault = NoReadFault,
      chromedp_run = Inr [mk_link ''Sinners'' ''/movies/cuttack/sinners'',
                          mk_link (nbsp @ ''Ballerina '') ''/movies/cuttack/ballerina''],
      save_time = 90001000000, save_fault = NoSaveFault\<rparr>"

text \<open>The page lists no film, at time 0 and one hour later.\<close>

definition empty_page_env :: "int \<Rightarrow> env" where
  "empty_page_env t =
     \<lparr>now = t, read_fault = NoReadFault, chromedp_run = Inr [],
      save_time = t + 1000000, save_fault = NoSaveFault\<rparr>"

text \<open>
  A folding that keeps the case of the characters beyond ASCII, and a decoder that
  knows the entity \<open>&nbsp;\<close> only.
\<close>

definition keep_case :: "int \<Rightarrow> int" where
  "keep_case c = c"

definition decode_nbsp :: "string \<Rightarrow> string" where
  "decode_nbsp s = ReplaceAll s ''&nbsp;'' nbsp"

definition snow_white :: Movie where
  "snow_white = \<lparr>Title = ''Snow White'', Href = ''/movies/cuttack/snow-white''\<rparr>"

definition sunrise :: Movie where
  "sunrise = \<lparr>Title = ''Sunrise'', Href = ''/movies/cuttack/sunrise''\<rparr>"

definition ranked_input :: "Movie list" where
  "ranked_input = [snow_white, ballerina, sunrise, sinners]"


section \<open>Lemmas\<close>

subsection \<open>The handler, path by path\<close>

lemma getMovies_cached:
  assumes "fst (getMoviesFromDB (read_fault e) (now e) (city_of c) tbl) \<noteq> []"
  shows "getMovies finder decode e tbl c =
    \<lparr>response = reply finder decode (city_of c) (query_of c)
                  (fst (getMoviesFromDB (read_fault e) (now e) (city_of c) tbl)),
     db = tbl, trace = [DbRead (city_of c)]\<rparr>"
  using assms by (simp add: getMovies_def Let_def)

lemma getMovies_scrape_failed:
  assumes "fst (getMoviesFromDB (read_fault e) (now e) (city_of c) tbl) = []"
    and "chromedp_run e = Inl err"
  shows "getMovies finder decode e tbl c =
    \<lparr>response = JSON 500 (ErrorBody (''Failed to scrape movies: '' @ err)),
     db = tbl, trace = [DbRead (city_of c), Extract (city_of c)]\<rparr>"
  using assms by (simp add: getMovies_def Let_def scrapeMovies_def)

lemma getMovies_scraped:
  assumes "fst (getMoviesFromDB (read_fault e) (now e) (city_of c) tbl) = []"
    and "chromedp_run e = Inr links"
  shows "getMovies finder decode e tbl c =
    \<lparr>response = reply finder decode (city_of c) (query_of c) (movies_of_links decode links),
     db = snd (saveMoviesToDB (save_fault e) (save_time e) (city_of c)
                 (movies_of_links decode links) tbl),
     trace = [DbRead (city_of c), Extract (city_of c),
              Persist (city_of c) (movies_of_links decode links)
                (fst (saveMoviesToDB (save_fault e) (save_time e) (city_of c)
                        (movies_of_links decode links) tbl))]\<rparr>"
  using assms by (simp add: getMovies_def Let_def scrapeMovies_def)

lemma getMovies_cases:
  obtains (cached) "fst (getMoviesFromDB (read_fault e) (now e) (city_of c) tbl) \<noteq> []"
  | (failed) err where "fst (getMoviesFromDB (read_fault e) (now e) (city_of c) tbl) = []"
      "chromedp_run e = Inl err"
  | (scraped) links where "fst (getMoviesFromDB (read_fault e) (now e) (city_of c) tbl) = []"
      "chromedp_run e = Inr links"
  by (cases "chromedp_run e") auto

lemma insert_movies_Inr:
  "insert_movies f t city i movies tx = Inr tx' \<Longrightarrow>
     tx' = tx @ map (row_of_movie city t) movies"
proof (induction movies arbitrary: i tx)
  case Nil
  then show ?case by simp
next
  case (Cons m movies)
  from Cons.prems
  have "insert_movies f t city (Suc i) movies (tx @ [row_of_movie city t m]) = Inr tx'"
    by (simp split: if_splits)
  from Cons.IH [OF this] show ?case by simp
qed

lemma saveMoviesToDB_failed:
  "fst (saveMoviesToDB f t city movies tbl) = Some err \<Longrightarrow>
     snd (saveMoviesToDB f t city movies tbl) = tbl"
  by (auto simp: saveMoviesToDB_def split: if_splits sum.splits)

lemma saveMoviesToDB_committed:
  "fst (saveMoviesToDB f t city movies tbl) = None \<Longrightarrow>
     snd (saveMoviesToDB f t city movies tbl)
       = filter (\<lambda>r. city_col r \<noteq> city) tbl @ map (row_of_movie city t) movies"
  by (auto simp: saveMoviesToDB_def split: if_splits sum.splits dest: insert_movies_Inr)

lemma filter_city_rows:
  "filter (\<lambda>r. city_col r = city) (map (row_of_movie city t) movies)
     = map (row_of_movie city t) movies"
  by (induction movies) (auto simp: row_of_movie_def)

lemma filter_other_rows:
  "filter (\<lambda>r. city_col r \<noteq> city) (map (row_of_movie city t) movies) = []"
  by (induction movies) (auto simp: row_of_movie_def)

subsection \<open>Reading what is fresh\<close>


lemma select_fresh_all_fresh:
  assumes "list_all (\<lambda>r. city_col r \<noteq> city \<or> fresh t r) tbl"
  shows "select_fresh t city tbl
           = sort_key (\<lambda>r. - scraped_at r) (filter (\<lambda>r. city_col r = city) tbl)"
proof -
  have "filter (\<lambda>r. city_col r = city \<and> scraped_at r > t - hours24) tbl
          = filter (\<lambda>r. city_col r = city) tbl"
    using assms by (intro filter_cong) (auto simp: list_all_iff fresh_def)
  then show ?thesis by (simp add: select_fresh_def)
qed

lemma fresh_earlier: "t1 \<le> t2 \<Longrightarrow> fresh t2 r \<Longrightarrow> fresh t1 r"
  by (simp add: fresh_def)

lemma movie_of_row_of_movie: "movie_of_row (row_of_movie city t m) = m"
  by (cases m) (simp add: movie_of_row_def row_of_movie_def)

lemma select_fresh_saved:
  assumes "list_all (\<lambda>r. city_col r \<noteq> city \<or> fresh t r)
             (filter (\<lambda>r. city_col r \<noteq> city) tbl @ map (row_of_movie city ts) movies)"
  shows "map movie_of_row
           (select_fresh t city
              (filter (\<lambda>r. city_col r \<noteq> city) tbl @ map (row_of_movie city ts) movies))
         = movies"
proof -
  let ?rows = "map (row_of_movie city ts) movies"
  have "filter (\<lambda>r. city_col r = city) (filter (\<lambda>r. city_col r \<noteq> city) tbl @ ?rows) = ?rows"
    by (simp add: filter_city_rows)
  with select_fresh_all_fresh [OF assms]
  have "select_fresh t city (filter (\<lambda>r. city_col r \<noteq> city) tbl @ ?rows)
          = sort_key (\<lambda>r. - scraped_at r) ?rows"
    by simp
  also have "\<dots> = ?rows"
    by (rule sort_key_id_if_sorted) (simp add: row_of_movie_def comp_def sorted_replicate map_replicate_const)
  finally show ?thesis
    by (simp add: comp_def movie_of_row_of_movie)
qed

subsection \<open>The matcher over the described library\<close>

lemma in_order_subseq: "in_order ps cs \<longleftrightarrow> subseq ps cs"
  by (induction ps cs rule: in_order.induct) (auto simp: subseq_Cons2_neq)

lemma hit_subseq: "hit ufold p s \<longleftrightarrow> subseq (chars ufold p) (chars ufold s)"
  by (simp add: hit_def in_order_subseq)

lemma runes_ascii:
  "list_all (\<lambda>b. (of_char b :: int) < 128) s \<Longrightarrow> runes s = map of_char s"
  by (induction s) simp_all

lemma chars_ascii:
  assumes "list_all (\<lambda>b. (of_char b :: int) < 128) s"
  shows "chars ufold s = chars ufold' s"
proof -
  have "fold_case ufold (of_char b) = fold_case ufold' (of_char b)" if "b \<in> set s" for b
    using that assms by (auto simp: fold_case_def list_all_iff)
  then show ?thesis
    by (simp add: chars_def runes_ascii [OF assms])
qed

lemma collect_in_range:
  "list_all (\<lambda>m. Index m < length movies) ms \<Longrightarrow>
     collect movies ms = Some (map (\<lambda>m. movies ! Index m) ms)"
  by (induction ms) auto

lemma scan_index:
  "m \<in> set (scan ufold score p i data) \<Longrightarrow> i \<le> Index m \<and> Index m < i + length data"
  by (induction data arbitrary: i) (fastforce split: if_splits)+

lemma scan_score:
  "m \<in> set (scan ufold score p i data) \<Longrightarrow> Score m = score p (data ! (Index m - i))"
proof (induction data arbitrary: i)
  case Nil
  then show ?case by simp
next
  case (Cons s ss)
  show ?case
  proof (cases "m \<in> set (scan ufold score p (Suc i) ss)")
    case True
    from scan_index [OF True] have "Index m - i = Suc (Index m - Suc i)" by arith
    with Cons.IH [OF True] show ?thesis by simp
  next
    case False
    with Cons.prems show ?thesis by (auto split: if_splits)
  qed
qed

lemma map_scan:
  "map (\<lambda>m. xs ! (Index m - i)) (scan ufold score p i (map Title xs))
     = filter (\<lambda>x. hit ufold p (Title x)) xs"
proof (induction xs arbitrary: i)
  case Nil
  then show ?case by simp
next
  case (Cons x xs)
  have "map (\<lambda>m. (x # xs) ! (Index m - i)) (scan ufold score p (Suc i) (map Title xs))
          = map (\<lambda>m. xs ! (Index m - Suc i)) (scan ufold score p (Suc i) (map Title xs))"
  proof (rule map_cong [OF refl])
    fix m assume "m \<in> set (scan ufold score p (Suc i) (map Title xs))"
    from scan_index [OF this] have "Index m - i = Suc (Index m - Suc i)" by arith
    then show "(x # xs) ! (Index m - i) = xs ! (Index m - Suc i)" by simp
  qed
  with Cons.IH [of "Suc i"] show ?case by simp
qed

lemma map_insort_key:
  "f x = k (g x) \<Longrightarrow> (\<And>y. y \<in> set xs \<Longrightarrow> f y = k (g y)) \<Longrightarrow>
     map g (insort_key f x xs) = insort_key k (g x) (map g xs)"
  by (induction xs) auto

lemma map_sort_key:
  "(\<And>y. y \<in> set xs \<Longrightarrow> f y = k (g y)) \<Longrightarrow> map g (sort_key f xs) = sort_key k (map g xs)"
proof (induction xs)
  case Nil
  then show ?case by simp
next
  case (Cons a xs)
  have IH: "map g (sort_key f xs) = sort_key k (map g xs)"
    using Cons by simp
  have "map g (insort_key f a (sort_key f xs)) = insort_key k (g a) (map g (sort_key f xs))"
    using Cons.prems by (intro map_insort_key) auto
  with IH show ?case by simp
qed

lemma fuzzySearchMovies_Find:
  "fuzzySearchMovies (Find ufold score) movies query
     = Some (sort_key (\<lambda>m. - score query (Title m))
               (filter (\<lambda>m. hit ufold query (Title m)) movies))"
proof (cases "movies = []")
  case True
  then show ?thesis by (simp add: fuzzySearchMovies_def)
next
  case False
  let ?ms = "scan ufold score query 0 (map Title movies)"
  have range: "list_all (\<lambda>m. Index m < length movies) (sort_key (\<lambda>m. - Score m) ?ms)"
    using scan_index [of _ ufold score query 0 "map Title movies"] by (auto simp: list_all_iff)
  have key: "- Score m = - score query (Title (movies ! Index m))" if "m \<in> set ?ms" for m
    using scan_score [OF that] scan_index [OF that] by simp
  have "map (\<lambda>m. movies ! Index m) (sort_key (\<lambda>m. - Score m) ?ms)
          = sort_key (\<lambda>m. - score query (Title m)) (map (\<lambda>m. movies ! Index m) ?ms)"
    by (rule map_sort_key) (rule key)
  also have "map (\<lambda>m. movies ! Index m) ?ms = filter (\<lambda>m. hit ufold query (Title m)) movies"
    using map_scan [of movies 0 ufold score query] by simp
  finally show ?thesis
    using False collect_in_range [OF range]
    by (simp add: fuzzySearchMovies_def Find_def)
qed

lemma hit_ascii:
  "list_all (\<lambda>b. (of_char b :: int) < 128) p \<Longrightarrow> list_all (\<lambda>b. (of_char b :: int) < 128) s \<Longrightarrow>
     hit ufold p s = hit keep_case p s"
  by (simp add: hit_def chars_ascii [of _ ufold keep_case])

lemma in_order_refl: "in_order xs xs"
  by (induction xs) simp_all

lemma hit_refl: "hit ufold s s"
  by (simp add: hit_def in_order_refl)

lemma ranked_hits:
  "filter (\<lambda>m. hit keep_case ''sn'' (Title m)) ranked_input = [snow_white, sunrise, sinners]"
  by code_simp

lemma equal_title_found:
  assumes "query \<noteq> []" and "m \<in> set movies" and "Title m = cleanQuery decode query"
  shows "\<exists>result. apply_query (Find ufold score) decode movies query = Some result
           \<and> m \<in> set result"
proof -
  have "hit ufold (cleanQuery decode query) (Title m)"
    using assms(3) by (simp add: hit_refl)
  with assms(1,2) show ?thesis
    by (simp add: apply_query_def fuzzySearchMovies_Find)
qed

text \<open>
  Whole characters are matched, not their bytes: the letter KA (U+0915) is not in a title
  made of KHA (U+0916) and U+0955, although its three bytes are, spread over the two
  characters. And two letters beyond ASCII match when they fold to the same character.
\<close>

lemma hit_whole_characters:
  "\<not> hit keep_case [CHR 0xE0, CHR 0xA4, CHR 0x95]
       [CHR 0xE0, CHR 0xA4, CHR 0x96, CHR 0xE0, CHR 0xA5, CHR 0x95]"
proof -
  have ka: "runes [CHR 0xE0, CHR 0xA4, CHR 0x95] = [2325]"
    by (simp add: cont_def low6_def valid3_def)
  have kha: "runes [CHR 0xE0, CHR 0xA4, CHR 0x96, CHR 0xE0, CHR 0xA5, CHR 0x95] = [2326, 2389]"
    by (simp add: cont_def low6_def valid3_def)
  show ?thesis
    unfolding hit_def chars_def ka kha
    by (simp add: fold_case_def keep_case_def)
qed

lemma hit_beyond_ascii:
  assumes "ufold 201 = ufold 233"
  shows "hit ufold [CHR 0xC3, CHR 0x89] [CHR 0xC3, CHR 0xA9]"
proof -
  have upper: "runes [CHR 0xC3, CHR 0x89] = [201]"
    by (simp add: cont_def low6_def)
  have lower: "runes [CHR 0xC3, CHR 0xA9] = [233]"
    by (simp add: cont_def low6_def)
  have "chars ufold [CHR 0xC3, CHR 0x89] = [ufold 201]"
    unfolding chars_def upper by (simp add: fold_case_def)
  moreover have "chars ufold [CHR 0xC3, CHR 0xA9] = [ufold 233]"
    unfolding chars_def lower by (simp add: fold_case_def)
  ultimately show ?thesis
    unfolding hit_def using assms by simp
qed

subsection \<open>What a read delivers\<close>





subsection \<open>Normalization\<close>

lemma unicode_spaces_nonempty: "w \<in> set unicode_spaces \<Longrightarrow> w \<noteq> []"
  by (auto simp: unicode_spaces_def)

lemma strip_leading_splits:
  "\<exists>ls. list_all (\<lambda>w. w \<in> set ws) ls \<and> s = concat ls @ strip_leading ws s"
proof (induction ws s rule: strip_leading.induct)
  case (1 ws s)
  show ?case
  proof (cases "List.find (\<lambda>w. w \<noteq> [] \<and> prefix w s) ws")
    case None
    then have "strip_leading ws s = s"
      by (subst strip_leading.simps) simp
    then have "list_all (\<lambda>w. w \<in> set ws) [] \<and> s = concat [] @ strip_leading ws s"
      by simp
    then show ?thesis by blast
  next
    case (Some w)
    then have w: "w \<in> set ws" "prefix w s"
      by (auto simp: find_Some_iff)
    from Some have eq: "strip_leading ws s = strip_leading ws (drop (length w) s)"
      by (subst strip_leading.simps) simp
    from "1.IH" [OF Some] obtain ls where ls: "list_all (\<lambda>w. w \<in> set ws) ls"
      "drop (length w) s = concat ls @ strip_leading ws (drop (length w) s)"
      by blast
    from w(2) have "s = w @ drop (length w) s"
      by (auto simp: prefix_def)
    with ls eq w(1)
    have "list_all (\<lambda>w. w \<in> set ws) (w # ls) \<and> s = concat (w # ls) @ strip_leading ws s"
      by simp
    then show ?thesis by blast
  qed
qed

lemma strip_leading_done:
  "w \<in> set ws \<Longrightarrow> w \<noteq> [] \<Longrightarrow> \<not> prefix w (strip_leading ws s)"
proof (induction ws s rule: strip_leading.induct)
  case (1 ws s)
  show ?case
  proof (cases "List.find (\<lambda>w. w \<noteq> [] \<and> prefix w s) ws")
    case None
    then have "strip_leading ws s = s"
      by (subst strip_leading.simps) simp
    with None "1.prems" show ?thesis
      by (auto simp: find_None_iff)
  next
    case (Some v)
    then have "strip_leading ws s = strip_leading ws (drop (length v) s)"
      by (subst strip_leading.simps) simp
    with "1.IH" [OF Some "1.prems"] show ?thesis by simp
  qed
qed

lemma TrimSpace_splits:
  "\<exists>ls ts. list_all (\<lambda>w. w \<in> set unicode_spaces) ls
     \<and> list_all (\<lambda>w. w \<in> set unicode_spaces) ts
     \<and> s = concat ls @ TrimSpace s @ concat ts"
proof -
  let ?s1 = "strip_leading unicode_spaces s"
  from strip_leading_splits [of unicode_spaces s]
  obtain ls where ls: "list_all (\<lambda>w. w \<in> set unicode_spaces) ls" "s = concat ls @ ?s1"
    by blast
  from strip_leading_splits [of "map rev unicode_spaces" "rev ?s1"]
  obtain rs where rs: "list_all (\<lambda>w. w \<in> set (map rev unicode_spaces)) rs"
    "rev ?s1 = concat rs @ strip_leading (map rev unicode_spaces) (rev ?s1)"
    by blast
  from rs(2) have "?s1 = TrimSpace s @ rev (concat rs)"
    unfolding TrimSpace_def by (metis rev_append rev_rev_ident)
  moreover have "rev (concat rs) = concat (map rev (rev rs))"
    by (simp add: rev_concat)
  moreover have "list_all (\<lambda>w. w \<in> set unicode_spaces) (map rev (rev rs))"
    using rs(1) by (auto simp: list_all_iff)
  ultimately have "list_all (\<lambda>w. w \<in> set unicode_spaces) (map rev (rev rs))
    \<and> s = concat ls @ TrimSpace s @ concat (map rev (rev rs))"
    using ls(2) by simp
  with ls(1) show ?thesis by blast
qed

lemma TrimSpace_ends:
  assumes "w \<in> set unicode_spaces"
  shows "\<not> prefix w (TrimSpace s)" and "\<not> suffix w (TrimSpace s)"
proof -
  let ?s1 = "strip_leading unicode_spaces s"
  from assms have ne: "w \<noteq> []"
    by (rule unicode_spaces_nonempty)
  from strip_leading_splits [of "map rev unicode_spaces" "rev ?s1"]
  obtain rs where "rev ?s1 = concat rs @ strip_leading (map rev unicode_spaces) (rev ?s1)"
    by blast
  then have "?s1 = TrimSpace s @ rev (concat rs)"
    unfolding TrimSpace_def by (metis rev_append rev_rev_ident)
  then have "prefix (TrimSpace s) ?s1"
    by (metis prefixI)
  moreover have "\<not> prefix w ?s1"
    using assms ne by (rule strip_leading_done)
  ultimately show "\<not> prefix w (TrimSpace s)"
    using prefix_order.trans by blast
  have "rev w \<in> set (map rev unicode_spaces)" "rev w \<noteq> []"
    using assms ne by simp_all
  then have "\<not> prefix (rev w) (strip_leading (map rev unicode_spaces) (rev ?s1))"
    by (rule strip_leading_done)
  then show "\<not> suffix w (TrimSpace s)"
    by (simp add: TrimSpace_def suffix_to_prefix)
qed

lemma ReplaceAll_absent: "\<not> sublist old s \<Longrightarrow> ReplaceAll s old new = s"
proof (induction s)
  case Nil
  then show ?case by simp
next
  case (Cons c s)
  then have "\<not> prefix old (c # s)" "\<not> sublist old s"
    by (auto simp: sublist_Cons_right)
  with Cons.IH show ?case by simp
qed

lemma prefix_nbsp: "prefix nbsp s \<longleftrightarrow> (\<exists>t. s = CHR 0xC2 # CHR 0xA0 # t)"
  by (auto simp: nbsp_def prefix_def)

lemma ReplaceAll_first:
  "\<not> sublist nbsp u \<Longrightarrow>
     ReplaceAll (u @ nbsp @ v) nbsp new = u @ new @ ReplaceAll v nbsp new"
proof (induction u)
  case Nil
  have "ReplaceAll (nbsp @ v) nbsp new = new @ ReplaceAll v nbsp new"
    by (simp add: nbsp_def)
  then show ?case by simp
next
  case (Cons c u)
  then have no: "\<not> prefix nbsp (c # u)" "\<not> sublist nbsp u"
    by (auto simp: sublist_Cons_right)
  have "\<not> prefix nbsp (c # u @ nbsp @ v)"
  proof
    assume "prefix nbsp (c # u @ nbsp @ v)"
    then obtain t where t: "c # u @ nbsp @ v = CHR 0xC2 # CHR 0xA0 # t"
      by (auto simp: prefix_nbsp)
    show False
    proof (cases u)
      case Nil
      with t show False by (simp add: nbsp_def)
    next
      case (Cons d u')
      with t have "c # u = CHR 0xC2 # CHR 0xA0 # u'" by simp
      with no(1) show False by (simp add: prefix_nbsp)
    qed
  qed
  with Cons.IH [OF no(2)] show ?case by simp
qed

lemma ReplaceAll_head:
  "\<exists>t. ReplaceAll (c # s) nbsp '' '' = (if prefix nbsp (c # s) then CHR '' '' else c) # t"
proof -
  have "nbsp \<noteq> []"
    by (simp add: nbsp_def)
  then show ?thesis by simp
qed

lemma ReplaceAll_folded: "\<not> sublist nbsp (ReplaceAll s nbsp '' '')"
proof (induction s nbsp "'' ''" rule: ReplaceAll.induct)
  case 1
  then show ?case by (simp add: nbsp_def)
next
  case (2 c s)
  show ?case
  proof (cases "prefix nbsp (c # s)")
    case True
    then have yes: "nbsp \<noteq> [] \<and> prefix nbsp (c # s)"
      by (simp add: nbsp_def)
    from "2.hyps"(1) [OF yes] yes show ?thesis
      by (simp add: sublist_Cons_right prefix_nbsp)
  next
    case False
    then have no: "\<not> (nbsp \<noteq> [] \<and> prefix nbsp (c # s))" by simp
    have "\<not> prefix nbsp (c # ReplaceAll s nbsp '' '')"
    proof
      assume "prefix nbsp (c # ReplaceAll s nbsp '' '')"
      then obtain t where t: "c = CHR 0xC2" "ReplaceAll s nbsp '' '' = CHR 0xA0 # t"
        by (auto simp: prefix_nbsp)
      then obtain d s' where s: "s = d # s'"
        by (cases s) auto
      from ReplaceAll_head [of d s'] t(2) s
      have "\<not> prefix nbsp s" "d = CHR 0xA0"
        by (auto split: if_splits)
      with t(1) s False show False
        by (simp add: prefix_nbsp)
    qed
    with "2.hyps"(2) [OF no] False show ?thesis
      by (simp add: sublist_Cons_right)
  qed
qed

lemma cleanQuery_splits:
  "\<exists>ls ts. list_all (\<lambda>w. w \<in> set unicode_spaces) ls
     \<and> list_all (\<lambda>w. w \<in> set unicode_spaces) ts
     \<and> ReplaceAll (if CHR ''&'' \<in> set s then decode s else s) nbsp '' ''
         = concat ls @ cleanQuery decode s @ concat ts"
  using TrimSpace_splits [of "ReplaceAll (UnescapeString decode s) nbsp '' ''"]
  by (simp add: cleanQuery_def UnescapeString_def)

lemma cleanQuery_ends:
  "list_all (\<lambda>w. \<not> prefix w (cleanQuery decode s) \<and> \<not> suffix w (cleanQuery decode s))
     unicode_spaces"
  unfolding list_all_iff cleanQuery_def Let_def
  using TrimSpace_ends by blast

lemma cleanQuery_folded: "\<not> sublist nbsp (cleanQuery decode s)"
proof
  let ?F = "ReplaceAll (UnescapeString decode s) nbsp '' ''"
  assume "sublist nbsp (cleanQuery decode s)"
  then obtain ps ss where "TrimSpace ?F = ps @ nbsp @ ss"
    by (auto simp: sublist_def cleanQuery_def)
  moreover from TrimSpace_splits [of ?F]
  obtain ls ts where "?F = concat ls @ TrimSpace ?F @ concat ts"
    by blast
  ultimately have "?F = (concat ls @ ps) @ nbsp @ (ss @ concat ts)"
    by simp
  then have "sublist nbsp ?F"
    unfolding sublist_def by blast
  with ReplaceAll_folded show False
    by blast
qed

lemma cleanQuery_dragon: "cleanQuery decode dragon_title = ''How to Train Your Dragon''"
proof -
  have "UnescapeString decode dragon_title = dragon_title"
    by (simp add: UnescapeString_def dragon_title_def nbsp_def)
  moreover have "TrimSpace (ReplaceAll dragon_title nbsp '' '') = ''How to Train Your Dragon''"
    by code_simp
  ultimately show ?thesis
    by (simp only: cleanQuery_def Let_def)
qed

lemma cleanQuery_plain:
  "cleanQuery decode ''How to Train Your Dragon'' = ''How to Train Your Dragon''"
proof -
  have "UnescapeString decode ''How to Train Your Dragon'' = ''How to Train Your Dragon''"
    by (simp add: UnescapeString_def)
  moreover have "TrimSpace (ReplaceAll ''How to Train Your Dragon'' nbsp '' '')
                   = ''How to Train Your Dragon''"
    by code_simp
  ultimately show ?thesis
    by (simp only: cleanQuery_def Let_def)
qed

lemma cleanQuery_entity:
  assumes "decode ''How to Train Your&nbsp;Dragon'' = ''How to Train Your'' @ nbsp @ ''Dragon''"
  shows "cleanQuery decode ''How to Train Your&nbsp;Dragon'' = ''How to Train Your Dragon''"
proof -
  have "UnescapeString decode ''How to Train Your&nbsp;Dragon''
          = ''How to Train Your'' @ nbsp @ ''Dragon''"
    using assms by (simp add: UnescapeString_def)
  moreover have "TrimSpace (ReplaceAll (''How to Train Your'' @ nbsp @ ''Dragon'') nbsp '' '')
                   = ''How to Train Your Dragon''"
    by code_simp
  ultimately show ?thesis
    by (simp only: cleanQuery_def Let_def)
qed


section \<open>The claims\<close>

subsection \<open>The cache store\<close>

text \<open>
  Claim C2. \<open>saveMoviesToDB\<close> is all or nothing. Whatever step fails (the begin, the
  delete, any insert, the unique constraint, the commit), the table it leaves is the
  table it found, so the city's earlier rows are all there and read as before. When it
  succeeds, the city's rows are exactly the new entries, in their order and with the
  time of the transaction, and the rows of the other cities are as they were.
\<close>

theorem saveMoviesToDB_all_or_nothing:
  "(fst (saveMoviesToDB f t city movies tbl) \<noteq> None \<longrightarrow>
      snd (saveMoviesToDB f t city movies tbl) = tbl)
   \<and> (fst (saveMoviesToDB f t city movies tbl) = None \<longrightarrow>
        filter (\<lambda>r. city_col r = city) (snd (saveMoviesToDB f t city movies tbl))
          = map (row_of_movie city t) movies
      \<and> filter (\<lambda>r. city_col r \<noteq> city) (snd (saveMoviesToDB f t city movies tbl))
          = filter (\<lambda>r. city_col r \<noteq> city) tbl)"
proof (cases "fst (saveMoviesToDB f t city movies tbl)")
  case None
  from saveMoviesToDB_committed [OF None] None show ?thesis
    by (simp add: filter_city_rows filter_other_rows)
next
  case (Some err)
  from saveMoviesToDB_failed [OF Some] Some show ?thesis by simp
qed

text \<open>
  A replace of three entries whose second insert is refused leaves \<open>cached_table\<close>; the
  same replace without a fault leaves the three entries as the rows of cuttack.
\<close>

theorem saveMoviesToDB_all_or_nothing_witness:
  "fst (saveMoviesToDB (InsertFails 1) 3600000000 ''cuttack''
          [conjuring, sinners, ballerina] cached_table) \<noteq> None
   \<and> snd (saveMoviesToDB (InsertFails 1) 3600000000 ''cuttack''
          [conjuring, sinners, ballerina] cached_table) = cached_table
   \<and> fst (saveMoviesToDB NoSaveFault 3600000000 ''cuttack''
          [conjuring, sinners, ballerina] cached_table) = None
   \<and> filter (\<lambda>r. city_col r = ''cuttack'')
        (snd (saveMoviesToDB NoSaveFault 3600000000 ''cuttack''
                [conjuring, sinners, ballerina] cached_table))
       = map (row_of_movie ''cuttack'' 3600000000) [conjuring, sinners, ballerina]"
proof -
  have failed: "fst (saveMoviesToDB (InsertFails 1) 3600000000 ''cuttack''
                       [conjuring, sinners, ballerina] cached_table) \<noteq> None"
    by code_simp
  have committed: "fst (saveMoviesToDB NoSaveFault 3600000000 ''cuttack''
                          [conjuring, sinners, ballerina] cached_table) = None"
    by code_simp
  from failed committed
    saveMoviesToDB_all_or_nothing [of "InsertFails 1" 3600000000 "''cuttack''"
      "[conjuring, sinners, ballerina]" cached_table]
    saveMoviesToDB_all_or_nothing [of NoSaveFault 3600000000 "''cuttack''"
      "[conjuring, sinners, ballerina]" cached_table]
  show ?thesis by simp
qed

subsection \<open>The refresh decision\<close>




text \<open>
  Claim C3. When \<open>chromedp.Run\<close> ends with an error (a navigation failure, or the
  expiry of the 60 second context) in a request that extracts, the response is the
  status 500 with the error in its body, whatever rows the table holds (stale ones are
  not served); no write follows the extraction and the table is as it was, so that a
  later read finds what it would have found before.
\<close>

theorem extraction_failure_fails_request:
  assumes "chromedp_run e = Inl err"
    and "Extract (city_of c) \<in> set (trace (getMovies finder decode e tbl c))"
  shows "response (getMovies finder decode e tbl c)
           = JSON 500 (ErrorBody (''Failed to scrape movies: '' @ err))
    \<and> db (getMovies finder decode e tbl c) = tbl
    \<and> trace (getMovies finder decode e tbl c) = [DbRead (city_of c), Extract (city_of c)]"
proof (cases rule: getMovies_cases [of e c tbl])
  case cached
  from getMovies_cached [OF this] assms(2) show ?thesis by simp
next
  case (failed err')
  from getMovies_scrape_failed [OF this] assms(1) failed(2) show ?thesis by simp
next
  case (scraped links)
  with assms(1) show ?thesis by simp
qed

theorem extraction_failure_fails_request_witness:
  "chromedp_run timeout_env = Inl ''context deadline exceeded''
   \<and> Extract ''cuttack''
       \<in> set (trace (getMovies find_exact keep_entities timeout_env cached_table cuttack_request))
   \<and> response (getMovies find_exact keep_entities timeout_env cached_table cuttack_request)
       = JSON 500 (ErrorBody ''Failed to scrape movies: context deadline exceeded'')
   \<and> db (getMovies find_exact keep_entities timeout_env cached_table cuttack_request)
       = cached_table"
proof -
  have h: "chromedp_run timeout_env = Inl ''context deadline exceeded''"
    by (simp add: timeout_env_def)
  have c: "city_of cuttack_request = ''cuttack''"
    by (simp add: cuttack_request_def DefaultQuery_def)
  have x: "Extract (city_of cuttack_request)
             \<in> set (trace (getMovies find_exact keep_entities timeout_env cached_table
                             cuttack_request))"
    by code_simp
  from extraction_failure_fails_request [OF h x] h x
  show ?thesis unfolding c by simp
qed

text \<open>
  Claim C4. When the extraction has succeeded and the persist step fails, with whatever
  error, the request does not fail: the table is as it was and the response is what the
  extracted entries give, the status 200 with exactly these entries when there is no
  query, and with what the matcher makes of them when there is one.
\<close>

theorem persist_failure_still_serves:
  assumes "Persist (city_of c) ms (Some err) \<in> set (trace (getMovies finder decode e tbl c))"
  shows "scrapeMovies decode (chromedp_run e) = Inr ms
    \<and> db (getMovies finder decode e tbl c) = tbl
    \<and> (query_of c = [] \<longrightarrow>
         response (getMovies finder decode e tbl c)
           = JSON 200 (MoviesBody (city_of c) ms (length ms)))
    \<and> (\<forall>ms'. apply_query finder decode ms (query_of c) = Some ms' \<longrightarrow>
         response (getMovies finder decode e tbl c)
           = JSON 200 (MoviesBody (city_of c) ms' (length ms')))"
proof (cases rule: getMovies_cases [of e c tbl])
  case cached
  from getMovies_cached [OF this] assms show ?thesis by simp
next
  case (failed err')
  from getMovies_scrape_failed [OF this] assms show ?thesis by simp
next
  case (scraped links)
  note out = getMovies_scraped [OF scraped, of finder decode]
  from out assms have ms: "ms = movies_of_links decode links"
    and failed: "fst (saveMoviesToDB (save_fault e) (save_time e) (city_of c)
                        (movies_of_links decode links) tbl) = Some err"
    by simp_all
  from saveMoviesToDB_failed [OF failed] out have "db (getMovies finder decode e tbl c) = tbl"
    by simp
  moreover have "scrapeMovies decode (chromedp_run e) = Inr ms"
    using scraped(2) ms by (simp add: scrapeMovies_def)
  moreover have "response (getMovies finder decode e tbl c)
                   = reply finder decode (city_of c) (query_of c) ms"
    using out ms by simp
  ultimately show ?thesis
    by (auto simp: reply_def apply_query_def)
qed

text \<open>
  The page lists one link twice; the second insert breaks \<open>UNIQUE(city, href)\<close>, the
  transaction is rolled back, and both entries are served.
\<close>

theorem persist_failure_still_serves_witness:
  "Persist ''cuttack'' [sinners, sinners] (Some UniqueViolation)
     \<in> set (trace (getMovies find_exact keep_entities twice_env cached_table cuttack_request))
   \<and> query_of cuttack_request = []
   \<and> response (getMovies find_exact keep_entities twice_env cached_table cuttack_request)
       = JSON 200 (MoviesBody ''cuttack'' [sinners, sinners] 2)
   \<and> db (getMovies find_exact keep_entities twice_env cached_table cuttack_request)
       = cached_table"
proof -
  have c: "city_of cuttack_request = ''cuttack''"
    by (simp add: cuttack_request_def DefaultQuery_def)
  have q: "query_of cuttack_request = []"
    by (simp add: cuttack_request_def Query_def)
  have p: "Persist (city_of cuttack_request) [sinners, sinners] (Some UniqueViolation)
             \<in> set (trace (getMovies find_exact keep_entities twice_env cached_table
                             cuttack_request))"
    by code_simp
  from persist_failure_still_serves [OF p] p q
  show ?thesis unfolding c by simp
qed

text \<open>
  Claim C10. The query has no part in what is written. Two requests that differ in
  their query only make the same calls with the same arguments and leave the same table;
  and what a successful persist has written for the city is the whole list that the
  extraction returned, before any matching.
\<close>

theorem query_never_affects_cache:
  "db (getMovies finder decode e tbl \<lparr>city_param = cp, query_param = q1\<rparr>)
     = db (getMovies finder decode e tbl \<lparr>city_param = cp, query_param = q2\<rparr>)
   \<and> trace (getMovies finder decode e tbl \<lparr>city_param = cp, query_param = q1\<rparr>)
     = trace (getMovies finder decode e tbl \<lparr>city_param = cp, query_param = q2\<rparr>)
   \<and> (\<forall>ms. Persist (DefaultQuery cp ''cuttack'') ms None
              \<in> set (trace (getMovies finder decode e tbl \<lparr>city_param = cp, query_param = q1\<rparr>))
         \<longrightarrow> scrapeMovies decode (chromedp_run e) = Inr ms
           \<and> filter (\<lambda>r. city_col r = DefaultQuery cp ''cuttack'')
                (db (getMovies finder decode e tbl \<lparr>city_param = cp, query_param = q1\<rparr>))
               = map (row_of_movie (DefaultQuery cp ''cuttack'') (save_time e)) ms)"
proof -
  let ?c1 = "\<lparr>city_param = cp, query_param = q1\<rparr>" and ?c2 = "\<lparr>city_param = cp, query_param = q2\<rparr>"
  let ?city = "DefaultQuery cp ''cuttack''"
  show ?thesis
  proof (cases rule: getMovies_cases [of e ?c1 tbl])
    case cached
    then have "fst (getMoviesFromDB (read_fault e) (now e) (city_of ?c2) tbl) \<noteq> []" by simp
    from getMovies_cached [OF cached, of finder decode] getMovies_cached [OF this, of finder decode]
    show ?thesis by simp
  next
    case (failed err)
    then have "fst (getMoviesFromDB (read_fault e) (now e) (city_of ?c2) tbl) = []" by simp
    from getMovies_scrape_failed [OF failed, of finder decode]
      getMovies_scrape_failed [OF this failed(2), of finder decode]
    show ?thesis by simp
  next
    case (scraped links)
    then have "fst (getMoviesFromDB (read_fault e) (now e) (city_of ?c2) tbl) = []" by simp
    note out1 = getMovies_scraped [OF scraped, of finder decode]
      and out2 = getMovies_scraped [OF this scraped(2), of finder decode]
    have "filter (\<lambda>r. city_col r = ?city) (db (getMovies finder decode e tbl ?c1))
            = map (row_of_movie ?city (save_time e)) ms"
      and "scrapeMovies decode (chromedp_run e) = Inr ms"
      if "Persist ?city ms None \<in> set (trace (getMovies finder decode e tbl ?c1))" for ms
    proof -
      from that out1 have ms: "ms = movies_of_links decode links"
        and ok: "fst (saveMoviesToDB (save_fault e) (save_time e) ?city
                        (movies_of_links decode links) tbl) = None"
        by simp_all
      from saveMoviesToDB_committed [OF ok] out1 ms
      show "filter (\<lambda>r. city_col r = ?city) (db (getMovies finder decode e tbl ?c1))
              = map (row_of_movie ?city (save_time e)) ms"
        by (simp add: filter_city_rows)
      from ms scraped(2) show "scrapeMovies decode (chromedp_run e) = Inr ms"
        by (simp add: scrapeMovies_def)
    qed
    with out1 out2 show ?thesis by simp
  qed
qed

theorem query_never_affects_cache_witness:
  "Persist ''cuttack'' [sinners, ballerina] None
     \<in> set (trace (getMovies find_exact keep_entities listing_env cached_table
                     \<lparr>city_param = Some ''cuttack'', query_param = Some ''Ballerina''\<rparr>))
   \<and> db (getMovies find_exact keep_entities listing_env cached_table
           \<lparr>city_param = Some ''cuttack'', query_param = Some ''Ballerina''\<rparr>)
       = db (getMovies find_exact keep_entities listing_env cached_table
               \<lparr>city_param = Some ''cuttack'', query_param = None\<rparr>)
   \<and> filter (\<lambda>r. city_col r = ''cuttack'')
        (db (getMovies find_exact keep_entities listing_env cached_table
               \<lparr>city_param = Some ''cuttack'', query_param = Some ''Ballerina''\<rparr>))
       = map (row_of_movie ''cuttack'' (save_time listing_env)) [sinners, ballerina]"
proof -
  have c: "DefaultQuery (Some ''cuttack'') ''cuttack'' = ''cuttack''"
    by (simp add: DefaultQuery_def)
  have p: "Persist ''cuttack'' [sinners, ballerina] None
             \<in> set (trace (getMovies find_exact keep_entities listing_env cached_table
                     \<lparr>city_param = Some ''cuttack'', query_param = Some ''Ballerina''\<rparr>))"
    by code_simp
  from query_never_affects_cache
         [of find_exact keep_entities listing_env cached_table "Some ''cuttack''"
             "Some ''Ballerina''" None] p
  show ?thesis unfolding c by blast
qed

text \<open>
  Claim C5, as amended. Two calls for the same city without a query, the second on the
  table the first has left and not before it. If both reads of the cache succeed, the
  first call was served from the cache or extracted at least one entry and persisted
  the list, and every row of the city is fresh at the second call, then the second call
  makes the read and no other call, its response is the response of the first, and the
  two calls together have extracted at most once.
\<close>

theorem second_call_in_window_served_from_cache:
  assumes reads: "read_fault e1 = NoReadFault" "read_fault e2 = NoReadFault"
    and noquery: "query_of c = []"
    and first: "trace (getMovies finder decode e1 tbl c) = [DbRead (city_of c)]
              \<or> (\<exists>ms. ms \<noteq> [] \<and> trace (getMovies finder decode e1 tbl c)
                    = [DbRead (city_of c), Extract (city_of c), Persist (city_of c) ms None])"
    and later: "now e1 \<le> now e2"
    and window: "list_all (\<lambda>r. city_col r \<noteq> city_of c \<or> fresh (now e2) r)
                   (db (getMovies finder decode e1 tbl c))"
  shows "trace (getMovies finder decode e2 (db (getMovies finder decode e1 tbl c)) c)
           = [DbRead (city_of c)]
    \<and> response (getMovies finder decode e2 (db (getMovies finder decode e1 tbl c)) c)
        = response (getMovies finder decode e1 tbl c)
    \<and> count_list (trace (getMovies finder decode e1 tbl c)
                   @ trace (getMovies finder decode e2 (db (getMovies finder decode e1 tbl c)) c))
        (Extract (city_of c)) \<le> 1"
proof -
  let ?city = "city_of c"
  let ?out1 = "getMovies finder decode e1 tbl c"
  let ?out2 = "getMovies finder decode e2 (db ?out1) c"
  have read1: "fst (getMoviesFromDB (read_fault e1) (now e1) ?city tbl)
                 = map movie_of_row (select_fresh (now e1) ?city tbl)"
    using reads by (simp add: getMoviesFromDB_def)
  have read2: "fst (getMoviesFromDB (read_fault e2) (now e2) ?city tbl')
                 = map movie_of_row (select_fresh (now e2) ?city tbl')" for tbl'
    using reads by (simp add: getMoviesFromDB_def)
  have "\<exists>E. E \<noteq> [] \<and> response ?out1 = reply finder decode ?city (query_of c) E
           \<and> map movie_of_row (select_fresh (now e2) ?city (db ?out1)) = E
           \<and> count_list (trace ?out1) (Extract ?city) \<le> 1"
  proof (cases rule: getMovies_cases [of e1 c tbl])
    case cached
    note out1 = getMovies_cached [OF cached, of finder decode]
    from window out1 have w2: "list_all (\<lambda>r. city_col r \<noteq> ?city \<or> fresh (now e2) r) tbl"
      by simp
    then have w1: "list_all (\<lambda>r. city_col r \<noteq> ?city \<or> fresh (now e1) r) tbl"
      using fresh_earlier [OF later] by (auto simp: list_all_iff)
    have "select_fresh (now e2) ?city tbl = select_fresh (now e1) ?city tbl"
      by (simp add: select_fresh_all_fresh [OF w1] select_fresh_all_fresh [OF w2])
    with cached out1 read1 show ?thesis by simp
  next
    case (failed err)
    from getMovies_scrape_failed [OF failed, of finder decode] first show ?thesis by simp
  next
    case (scraped links)
    note out1 = getMovies_scraped [OF scraped, of finder decode]
    let ?ms = "movies_of_links decode links"
    from out1 first have ne: "?ms \<noteq> []"
      and ok: "fst (saveMoviesToDB (save_fault e1) (save_time e1) ?city ?ms tbl) = None"
      by auto
    from saveMoviesToDB_committed [OF ok] out1
    have db1: "db ?out1 = filter (\<lambda>r. city_col r \<noteq> ?city) tbl
                            @ map (row_of_movie ?city (save_time e1)) ?ms"
      by simp
    from window have "map movie_of_row (select_fresh (now e2) ?city (db ?out1)) = ?ms"
      unfolding db1 by (rule select_fresh_saved)
    with ne out1 show ?thesis by simp
  qed
  then obtain E where E: "E \<noteq> []"
    and r1: "response ?out1 = reply finder decode ?city (query_of c) E"
    and s2: "map movie_of_row (select_fresh (now e2) ?city (db ?out1)) = E"
    and n1: "count_list (trace ?out1) (Extract ?city) \<le> 1"
    by blast
  from E s2 read2 [of "db ?out1"]
  have "fst (getMoviesFromDB (read_fault e2) (now e2) ?city (db ?out1)) \<noteq> []" by simp
  from getMovies_cached [OF this, of finder decode] read2 [of "db ?out1"] s2 r1 n1
  show ?thesis by simp
qed

text \<open>
  At time 0 the table is empty and the page lists two films; one hour later the second
  call is served what the first has written.
\<close>

theorem second_call_in_window_served_from_cache_witness:
  "read_fault (listing_env\<lparr>now := 0, save_time := 1000000\<rparr>) = NoReadFault
   \<and> read_fault warm_env = NoReadFault
   \<and> query_of cuttack_request = []
   \<and> trace (getMovies find_exact keep_entities (listing_env\<lparr>now := 0, save_time := 1000000\<rparr>)
              [] cuttack_request)
       = [DbRead ''cuttack'', Extract ''cuttack'',
          Persist ''cuttack'' [sinners, ballerina] None]
   \<and> now (listing_env\<lparr>now := 0, save_time := 1000000\<rparr>) \<le> now warm_env
   \<and> trace (getMovies find_exact keep_entities warm_env
              (db (getMovies find_exact keep_entities
                     (listing_env\<lparr>now := 0, save_time := 1000000\<rparr>) [] cuttack_request))
              cuttack_request)
       = [DbRead ''cuttack'']
   \<and> response (getMovies find_exact keep_entities warm_env
              (db (getMovies find_exact keep_entities
                     (listing_env\<lparr>now := 0, save_time := 1000000\<rparr>) [] cuttack_request))
              cuttack_request)
       = response (getMovies find_exact keep_entities
                     (listing_env\<lparr>now := 0, save_time := 1000000\<rparr>) [] cuttack_request)"
proof -
  let ?e1 = "listing_env\<lparr>now := 0, save_time := 1000000\<rparr>"
  have c: "city_of cuttack_request = ''cuttack''"
    by (simp add: cuttack_request_def DefaultQuery_def)
  have r1: "read_fault ?e1 = NoReadFault"
    by (simp add: listing_env_def)
  have r2: "read_fault warm_env = NoReadFault"
    by (simp add: warm_env_def)
  have q: "query_of cuttack_request = []"
    by (simp add: cuttack_request_def Query_def)
  have t: "trace (getMovies find_exact keep_entities ?e1 [] cuttack_request)
             = [DbRead ''cuttack'', Extract ''cuttack'',
                Persist ''cuttack'' [sinners, ballerina] None]"
    by code_simp
  have ne: "[sinners, ballerina] \<noteq> []"
    by simp
  have first: "trace (getMovies find_exact keep_entities ?e1 [] cuttack_request)
                 = [DbRead (city_of cuttack_request)]
             \<or> (\<exists>ms. ms \<noteq> [] \<and> trace (getMovies find_exact keep_entities ?e1 [] cuttack_request)
                   = [DbRead (city_of cuttack_request), Extract (city_of cuttack_request),
                      Persist (city_of cuttack_request) ms None])"
    unfolding c using t ne by blast
  have later: "now ?e1 \<le> now warm_env"
    by (simp add: warm_env_def)
  have window: "list_all (\<lambda>r. city_col r \<noteq> city_of cuttack_request \<or> fresh (now warm_env) r)
                  (db (getMovies find_exact keep_entities ?e1 [] cuttack_request))"
    by code_simp
  from second_call_in_window_served_from_cache [OF r1 r2 q first later window]
    r1 r2 q t later
  show ?thesis unfolding c by simp
qed

text \<open>
  Claim C5, as stated, fails when the first call leaves nothing to serve. The table is
  empty and the page lists no film: the first call extracts, writes no row and answers
  with no entry; one hour later the second call reads no row and extracts again.
\<close>

theorem two_calls_extract_twice_counterexample:
  "now (empty_page_env 3600000000) - now (empty_page_env 0) < hours24
   \<and> query_of cuttack_request = []
   \<and> count_list
       (trace (getMovies find_exact keep_entities (empty_page_env 0) [] cuttack_request)
        @ trace (getMovies find_exact keep_entities (empty_page_env 3600000000)
                   (db (getMovies find_exact keep_entities (empty_page_env 0) []
                          cuttack_request))
                   cuttack_request))
       (Extract ''cuttack'') = 2"
  by code_simp

subsection \<open>Normalization and the matcher\<close>

text \<open>
  Claim C8. The extractor stores as title \<open>cleanQuery\<close> of the text of each link it
  keeps, and the handler hands \<open>cleanQuery\<close> of the query to the matcher: one function
  on both sides. What it returns for a string \<open>s\<close> is the entity-decoded \<open>s\<close> with
  every non-breaking space replaced by a plain space (the two laws of \<open>ReplaceAll\<close>)
  and the white space at both ends taken off: it is surrounded by white space only in the
  folded string, has no white space at either end and no non-breaking space anywhere.
  The title written with non-breaking spaces, the query written with plain spaces and
  the query written with the entity \<open>&nbsp;\<close> are all normalized to
  \<open>How to Train Your Dragon\<close>. With \<open>fuzzy.Find\<close> as the specification describes
  it, an entry whose title is the normalized query is among the results, and the entry
  extracted from the link with non-breaking spaces is the result of the plain query.
\<close>

theorem titles_and_queries_normalized_alike:
  "map Title (movies_of_links decode links)
     = map (\<lambda>l. cleanQuery decode (index_map l ''text''))
         (filter (\<lambda>l. index_map l ''href'' \<noteq> []) links)
   \<and> (query \<noteq> [] \<longrightarrow>
        apply_query finder decode movies query
          = fuzzySearchMovies finder movies (cleanQuery decode query))
   \<and> (\<exists>ls ts. list_all (\<lambda>w. w \<in> set unicode_spaces) ls
          \<and> list_all (\<lambda>w. w \<in> set unicode_spaces) ts
          \<and> ReplaceAll (if CHR ''&'' \<in> set s then decode s else s) nbsp '' ''
              = concat ls @ cleanQuery decode s @ concat ts)
   \<and> list_all (\<lambda>w. \<not> prefix w (cleanQuery decode s) \<and> \<not> suffix w (cleanQuery decode s))
        unicode_spaces
   \<and> \<not> sublist nbsp (cleanQuery decode s)
   \<and> (\<not> sublist nbsp u \<longrightarrow>
        ReplaceAll u nbsp '' '' = u
      \<and> ReplaceAll (u @ nbsp @ v) nbsp '' '' = u @ '' '' @ ReplaceAll v nbsp '' '')
   \<and> cleanQuery decode dragon_title = ''How to Train Your Dragon''
   \<and> cleanQuery decode ''How to Train Your Dragon'' = ''How to Train Your Dragon''
   \<and> (decode ''How to Train Your&nbsp;Dragon'' = ''How to Train Your'' @ nbsp @ ''Dragon'' \<longrightarrow>
        cleanQuery decode ''How to Train Your&nbsp;Dragon'' = ''How to Train Your Dragon'')
   \<and> (query \<noteq> [] \<and> m \<in> set movies \<and> Title m = cleanQuery decode query \<longrightarrow>
        (\<exists>result. apply_query (Find ufold score) decode movies query = Some result
           \<and> m \<in> set result))
   \<and> (h \<noteq> [] \<longrightarrow>
        apply_query (Find ufold score) decode
          (movies_of_links decode [mk_link dragon_title h]) ''How to Train Your Dragon''
          = Some [\<lparr>Title = ''How to Train Your Dragon'', Href = h\<rparr>])"
proof -
  have titles: "map Title (movies_of_links decode links)
                  = map (\<lambda>l. cleanQuery decode (index_map l ''text''))
                      (filter (\<lambda>l. index_map l ''href'' \<noteq> []) links)"
    by (induction links) simp_all
  have handed: "apply_query finder decode movies query
                  = fuzzySearchMovies finder movies (cleanQuery decode query)"
    if "query \<noteq> []"
    using that by (simp add: apply_query_def)
  have laws: "ReplaceAll u nbsp '' '' = u
      \<and> ReplaceAll (u @ nbsp @ v) nbsp '' '' = u @ '' '' @ ReplaceAll v nbsp '' ''"
    if "\<not> sublist nbsp u"
    using ReplaceAll_absent [OF that] ReplaceAll_first [OF that] by simp
  have link: "apply_query (Find ufold score) decode
          (movies_of_links decode [mk_link dragon_title h]) ''How to Train Your Dragon''
          = Some [\<lparr>Title = ''How to Train Your Dragon'', Href = h\<rparr>]"
    if "h \<noteq> []"
  proof -
    have entry: "movies_of_links decode [mk_link dragon_title h]
                   = [\<lparr>Title = ''How to Train Your Dragon'', Href = h\<rparr>]"
      using that by (simp add: mk_link_def index_map_def cleanQuery_dragon)
    have "hit ufold ''How to Train Your Dragon'' ''How to Train Your Dragon''"
      by (rule hit_refl)
    then have "filter (\<lambda>m. hit ufold ''How to Train Your Dragon'' (Title m))
                 [\<lparr>Title = ''How to Train Your Dragon'', Href = h\<rparr>]
               = [\<lparr>Title = ''How to Train Your Dragon'', Href = h\<rparr>]"
      by (simp only: filter.simps Movie.select_convs if_True)
    moreover have "''How to Train Your Dragon'' \<noteq> []"
      by simp
    ultimately show ?thesis
      unfolding entry apply_query_def fuzzySearchMovies_Find cleanQuery_plain by simp
  qed
  show ?thesis
    using titles handed cleanQuery_splits [of s decode] cleanQuery_ends [of decode s]
      cleanQuery_folded [of decode s] laws cleanQuery_dragon [of decode]
      cleanQuery_plain [of decode] cleanQuery_entity [of decode]
      equal_title_found [of query m movies decode ufold score] link
    by (intro conjI impI) blast+
qed

theorem titles_and_queries_normalized_alike_witness:
  "''Ballerina'' \<noteq> []
   \<and> apply_query find_exact decode_nbsp [sinners, ballerina] ''Ballerina''
       = fuzzySearchMovies find_exact [sinners, ballerina] (cleanQuery decode_nbsp ''Ballerina'')
   \<and> \<not> sublist nbsp ''How''
   \<and> ReplaceAll (''How'' @ nbsp @ ''to'') nbsp '' '' = ''How'' @ '' '' @ ReplaceAll ''to'' nbsp '' ''
   \<and> decode_nbsp ''How to Train Your&nbsp;Dragon'' = ''How to Train Your'' @ nbsp @ ''Dragon''
   \<and> cleanQuery decode_nbsp ''How to Train Your&nbsp;Dragon'' = ''How to Train Your Dragon''
   \<and> ballerina \<in> set [sinners, ballerina]
   \<and> Title ballerina = cleanQuery decode_nbsp ''Ballerina''
   \<and> (\<exists>result. apply_query (Find keep_case length_score) decode_nbsp [sinners, ballerina]
                  ''Ballerina'' = Some result \<and> ballerina \<in> set result)
   \<and> ''/movies/cuttack/dragon'' \<noteq> []
   \<and> apply_query (Find keep_case length_score) decode_nbsp
        (movies_of_links decode_nbsp [mk_link dragon_title ''/movies/cuttack/dragon''])
        ''How to Train Your Dragon''
       = Some [\<lparr>Title = ''How to Train Your Dragon'', Href = ''/movies/cuttack/dragon''\<rparr>]"
proof -
  have q: "''Ballerina'' \<noteq> []"
    by simp
  have u: "\<not> sublist nbsp ''How''"
    by code_simp
  have d: "decode_nbsp ''How to Train Your&nbsp;Dragon'' = ''How to Train Your'' @ nbsp @ ''Dragon''"
    by code_simp
  have m: "ballerina \<in> set [sinners, ballerina]"
    by simp
  have t: "Title ballerina = cleanQuery decode_nbsp ''Ballerina''"
    by code_simp
  have h: "''/movies/cuttack/dragon'' \<noteq> []"
    by simp
  from titles_and_queries_normalized_alike
         [of decode_nbsp "[]" "''Ballerina''" find_exact "[sinners, ballerina]"
             "''How to Train Your&nbsp;Dragon''" "''How''" "''to''" ballerina keep_case
             length_score "''/movies/cuttack/dragon''"]
    q u d m t h
  show ?thesis
    by (intro conjI) blast+
qed

text \<open>
  Claim C9. With \<open>fuzzy.Find\<close> as the specification describes it, the output of the
  matcher is fixed by the entries and the query: for a query that is not empty, every
  list that holds the matching entries, in descending score, with the entries of one
  score in the order of the input, is the list the matcher returns, and the matcher
  always returns one. With the empty query the matcher, whatever \<open>fuzzy.Find\<close> is,
  returns the entries as they are, and the response carries them in their order.
\<close>

theorem matcher_deterministic_and_empty_query_identity:
  "(query \<noteq> []
      \<and> mset R = mset (filter (\<lambda>m. subseq (chars ufold (cleanQuery decode query))
                                      (chars ufold (Title m))) E)
      \<and> sorted_wrt (\<lambda>a b. score (cleanQuery decode query) (Title a)
                           \<ge> score (cleanQuery decode query) (Title b)) R
      \<and> (\<forall>k. filter (\<lambda>m. score (cleanQuery decode query) (Title m) = k) R
              = filter (\<lambda>m. score (cleanQuery decode query) (Title m) = k)
                  (filter (\<lambda>m. subseq (chars ufold (cleanQuery decode query))
                                 (chars ufold (Title m))) E))
    \<longrightarrow> apply_query (Find ufold score) decode E query = Some R)
   \<and> (\<exists>result. apply_query (Find ufold score) decode E query = Some result)
   \<and> apply_query finder decode E [] = Some E
   \<and> reply finder decode city [] E = JSON 200 (MoviesBody city E (length E))"
proof -
  let ?q = "cleanQuery decode query"
  let ?key = "\<lambda>m. - score ?q (Title m)"
  let ?hits = "filter (\<lambda>m. subseq (chars ufold ?q) (chars ufold (Title m))) E"
  have run: "apply_query (Find ufold score) decode E query = Some (sort_key ?key ?hits)"
    if "query \<noteq> []"
    using that by (simp add: apply_query_def fuzzySearchMovies_Find hit_subseq)
  have unique: "sort_key ?key ?hits = R"
    if m: "mset R = mset ?hits"
      and s: "sorted_wrt (\<lambda>a b. score ?q (Title a) \<ge> score ?q (Title b)) R"
      and t: "\<forall>k. filter (\<lambda>m. score ?q (Title m) = k) R
                  = filter (\<lambda>m. score ?q (Title m) = k) ?hits"
  proof (rule properties_for_sort_key [OF m])
    fix k assume "k \<in> set R"
    have "filter (\<lambda>x. ?key k = ?key x) R
            = filter (\<lambda>m. score ?q (Title m) = score ?q (Title k)) R"
      by (rule filter_cong) auto
    also have "\<dots> = filter (\<lambda>m. score ?q (Title m) = score ?q (Title k)) ?hits"
      using t by blast
    also have "\<dots> = filter (\<lambda>x. ?key k = ?key x) ?hits"
      by (rule filter_cong) auto
    finally show "filter (\<lambda>x. ?key k = ?key x) R = filter (\<lambda>x. ?key k = ?key x) ?hits" .
  next
    from s show "sorted (map ?key R)"
      by (simp add: sorted_map)
  qed
  have total: "\<exists>result. apply_query (Find ufold score) decode E query = Some result"
  proof (cases "query = []")
    case True
    then show ?thesis by (simp add: apply_query_def)
  next
    case False
    from run [OF False] show ?thesis by blast
  qed
  have empty: "apply_query finder decode E [] = Some E"
    by (simp add: apply_query_def)
  then have "reply finder decode city [] E = JSON 200 (MoviesBody city E (length E))"
    by (simp add: reply_def)
  moreover have "apply_query (Find ufold score) decode E query = Some R"
    if "query \<noteq> []" and "mset R = mset ?hits"
      and "sorted_wrt (\<lambda>a b. score ?q (Title a) \<ge> score ?q (Title b)) R"
      and "\<forall>k. filter (\<lambda>m. score ?q (Title m) = k) R
                = filter (\<lambda>m. score ?q (Title m) = k) ?hits"
    using run [OF that(1)] unique [OF that(2-4)] by simp
  ultimately show ?thesis
    using total empty by blast
qed

theorem matcher_deterministic_and_empty_query_identity_witness:
  "''sn'' \<noteq> []
   \<and> mset [sunrise, sinners, snow_white]
       = mset (filter (\<lambda>m. subseq (chars keep_case (cleanQuery keep_entities ''sn''))
                             (chars keep_case (Title m))) ranked_input)
   \<and> sorted_wrt (\<lambda>a b. length_score (cleanQuery keep_entities ''sn'') (Title a)
                        \<ge> length_score (cleanQuery keep_entities ''sn'') (Title b))
        [sunrise, sinners, snow_white]
   \<and> (\<forall>k. filter (\<lambda>m. length_score (cleanQuery keep_entities ''sn'') (Title m) = k)
             [sunrise, sinners, snow_white]
           = filter (\<lambda>m. length_score (cleanQuery keep_entities ''sn'') (Title m) = k)
               (filter (\<lambda>m. subseq (chars keep_case (cleanQuery keep_entities ''sn''))
                              (chars keep_case (Title m))) ranked_input))
   \<and> apply_query (Find keep_case length_score) keep_entities ranked_input ''sn''
       = Some [sunrise, sinners, snow_white]
   \<and> apply_query (Find keep_case length_score) keep_entities ranked_input []
       = Some ranked_input"
proof -
  have q: "cleanQuery keep_entities ''sn'' = ''sn''"
    by code_simp
  have hits: "filter (\<lambda>m. subseq (chars keep_case ''sn'') (chars keep_case (Title m)))
                ranked_input = [snow_white, sunrise, sinners]"
    using ranked_hits by (simp add: hit_subseq)
  have scores: "length_score ''sn'' (Title sunrise) = - 5"
    "length_score ''sn'' (Title sinners) = - 5"
    "length_score ''sn'' (Title snow_white) = - 8"
    by code_simp+
  have m: "mset [sunrise, sinners, snow_white] = mset [snow_white, sunrise, sinners]"
    by simp
  have s: "sorted_wrt (\<lambda>a b. length_score ''sn'' (Title a) \<ge> length_score ''sn'' (Title b))
             [sunrise, sinners, snow_white]"
    by (simp add: scores)
  have t: "\<forall>k. filter (\<lambda>m. length_score ''sn'' (Title m) = k) [sunrise, sinners, snow_white]
             = filter (\<lambda>m. length_score ''sn'' (Title m) = k) [snow_white, sunrise, sinners]"
    by (simp add: scores)
  have h: "''sn'' \<noteq> []"
    by simp
  note inst = matcher_deterministic_and_empty_query_identity
         [of "''sn''" "[sunrise, sinners, snow_white]" keep_case keep_entities ranked_input
             length_score "Find keep_case length_score", unfolded q hits]
  from inst h m s t
  have "apply_query (Find keep_case length_score) keep_entities ranked_input ''sn''
          = Some [sunrise, sinners, snow_white]"
    by blast
  moreover from inst
  have "apply_query (Find keep_case length_score) keep_entities ranked_input [] = Some ranked_input"
    by blast
  ultimately show ?thesis
    unfolding q hits using h m s t by blast
qed

text \<open>
  Claim C6. With \<open>fuzzy.Find\<close> as the specification describes it and a query that is
  not empty, \<open>fuzzySearchMovies\<close> returns the entries whose title has the characters of
  the query in order (a subsequence, case folded), each as often as it is in the input
  and no other entry; the result is in descending score; and the entries of one score
  are in the order they have in the input.
\<close>

theorem fuzzySearchMovies_filters_and_ranks:
  assumes "query \<noteq> []"
  shows "\<exists>result. fuzzySearchMovies (Find ufold score) movies query = Some result
    \<and> mset result
        = mset (filter (\<lambda>m. subseq (chars ufold query) (chars ufold (Title m))) movies)
    \<and> sorted_wrt (\<lambda>a b. score query (Title a) \<ge> score query (Title b)) result
    \<and> (\<forall>k. filter (\<lambda>m. score query (Title m) = k) result
            = filter (\<lambda>m. score query (Title m) = k)
                (filter (\<lambda>m. subseq (chars ufold query) (chars ufold (Title m))) movies))"
proof -
  let ?key = "\<lambda>m. - score query (Title m)"
  let ?hits = "filter (\<lambda>m. subseq (chars ufold query) (chars ufold (Title m))) movies"
  have res: "fuzzySearchMovies (Find ufold score) movies query = Some (sort_key ?key ?hits)"
    by (simp add: fuzzySearchMovies_Find hit_subseq)
  have "sorted (map ?key (sort_key ?key ?hits))"
    by (rule sorted_sort_key)
  then have ordered: "sorted_wrt (\<lambda>a b. score query (Title a) \<ge> score query (Title b))
                        (sort_key ?key ?hits)"
    by (simp add: sorted_map)
  have stable: "filter (\<lambda>m. score query (Title m) = k) (sort_key ?key ?hits)
                  = filter (\<lambda>m. score query (Title m) = k) ?hits" for k
    using sort_key_stable [of ?key "- k" ?hits] by simp
  show ?thesis
    using res ordered stable by simp
qed

text \<open>
  Of four entries the query \<open>sn\<close> excludes \<open>Ballerina\<close>; \<open>Sunrise\<close> and \<open>Sinners\<close>
  have one score and keep their order, before \<open>Snow White\<close>, which was first.
\<close>

theorem fuzzySearchMovies_filters_and_ranks_witness:
  "''sn'' \<noteq> []
   \<and> fuzzySearchMovies (Find keep_case length_score) ranked_input ''sn''
       = Some [sunrise, sinners, snow_white]
   \<and> \<not> subseq (chars keep_case ''sn'') (chars keep_case (Title ballerina))
   \<and> length_score ''sn'' (Title sunrise) = length_score ''sn'' (Title sinners)
   \<and> mset [sunrise, sinners, snow_white]
       = mset (filter (\<lambda>m. subseq (chars keep_case ''sn'') (chars keep_case (Title m)))
                 ranked_input)
   \<and> sorted_wrt (\<lambda>a b. length_score ''sn'' (Title a) \<ge> length_score ''sn'' (Title b))
        [sunrise, sinners, snow_white]
   \<and> (\<forall>k. filter (\<lambda>m. length_score ''sn'' (Title m) = k) [sunrise, sinners, snow_white]
           = filter (\<lambda>m. length_score ''sn'' (Title m) = k)
               (filter (\<lambda>m. subseq (chars keep_case ''sn'') (chars keep_case (Title m)))
                  ranked_input))"
proof -
  have h: "''sn'' \<noteq> []"
    by simp
  have found: "fuzzySearchMovies (Find keep_case length_score) ranked_input ''sn''
                 = Some [sunrise, sinners, snow_white]"
    by code_simp
  have "\<not> hit keep_case ''sn'' (Title ballerina)"
    by code_simp
  then have out: "\<not> subseq (chars keep_case ''sn'') (chars keep_case (Title ballerina))"
    by (simp add: hit_subseq)
  have tie: "length_score ''sn'' (Title sunrise) = length_score ''sn'' (Title sinners)"
    by code_simp
  from fuzzySearchMovies_filters_and_ranks [OF h, of keep_case length_score ranked_input]
  obtain result where
    "fuzzySearchMovies (Find keep_case length_score) ranked_input ''sn'' = Some result"
    and ranked: "mset result
        = mset (filter (\<lambda>m. subseq (chars keep_case ''sn'') (chars keep_case (Title m)))
                  ranked_input)"
      "sorted_wrt (\<lambda>a b. length_score ''sn'' (Title a) \<ge> length_score ''sn'' (Title b)) result"
      "\<forall>k. filter (\<lambda>m. length_score ''sn'' (Title m) = k) result
           = filter (\<lambda>m. length_score ''sn'' (Title m) = k)
               (filter (\<lambda>m. subseq (chars keep_case ''sn'') (chars keep_case (Title m)))
                  ranked_input)"
    by blast
  with found have "result = [sunrise, sinners, snow_white]"
    by simp
  with ranked h found out tie show ?thesis
    by blast
qed

text \<open>
  Claim C7. With \<open>fuzzy.Find\<close> as the specification describes it, whatever the score,
  the folding beyond ASCII and the links are: of the entries titled \<open>Ballerina\<close>,
  \<open>Sinners\<close> and \<open>The Conjuring\<close>, the query \<open>balerina\<close> finds \<open>Ballerina\<close>
  first, and nothing else.
\<close>

theorem balerina_finds_Ballerina_first:
  "apply_query (Find ufold score) decode
     [\<lparr>Title = ''Ballerina'', Href = h1\<rparr>, \<lparr>Title = ''Sinners'', Href = h2\<rparr>,
      \<lparr>Title = ''The Conjuring'', Href = h3\<rparr>] ''balerina''
     = Some [\<lparr>Title = ''Ballerina'', Href = h1\<rparr>]"
proof -
  have q: "cleanQuery decode ''balerina'' = ''balerina''"
  proof -
    have "UnescapeString decode ''balerina'' = ''balerina''"
      by (simp add: UnescapeString_def)
    moreover have "TrimSpace (ReplaceAll ''balerina'' nbsp '' '') = ''balerina''"
      by code_simp
    ultimately show ?thesis
      by (simp only: cleanQuery_def Let_def)
  qed
  have p: "list_all (\<lambda>b. (of_char b :: int) < 128) ''balerina''"
    by code_simp
  have "list_all (\<lambda>b. (of_char b :: int) < 128) ''Ballerina''"
    by code_simp
  from hit_ascii [OF p this, of ufold]
  have a: "hit ufold ''balerina'' ''Ballerina''"
    by (rule ssubst) code_simp
  have "list_all (\<lambda>b. (of_char b :: int) < 128) ''Sinners''"
    by code_simp
  from hit_ascii [OF p this, of ufold]
  have b: "\<not> hit ufold ''balerina'' ''Sinners''"
    by (rule ssubst) code_simp
  have "list_all (\<lambda>b. (of_char b :: int) < 128) ''The Conjuring''"
    by code_simp
  from hit_ascii [OF p this, of ufold]
  have c: "\<not> hit ufold ''balerina'' ''The Conjuring''"
    by (rule ssubst) code_simp
  have hits: "filter (\<lambda>m. hit ufold ''balerina'' (Title m))
                [\<lparr>Title = ''Ballerina'', Href = h1\<rparr>, \<lparr>Title = ''Sinners'', Href = h2\<rparr>,
                 \<lparr>Title = ''The Conjuring'', Href = h3\<rparr>]
              = [\<lparr>Title = ''Ballerina'', Href = h1\<rparr>]"
    by (simp only: filter.simps Movie.select_convs a b c if_True if_False)
  have "''balerina'' \<noteq> []"
    by simp
  then show ?thesis
    unfolding apply_query_def fuzzySearchMovies_Find q hits by simp
qed

end
